theory Spec2Isabelle
  imports Main "HOL-Library.AList"
begin

section \<open>Go channels\<close>

text \<open>
  The outbound queue of a connection is a buffered Go channel of byte slices
  (\<open>send chan []byte\<close>, made with capacity 256 in \<open>ServeWs\<close>). A payload is a byte
  string, modelled as \<open>string\<close>. Go panics on a send to a closed channel and on
  closing a closed channel; both panics are results of the model.
\<close>

record chan =
  buf :: "string list"
  cap :: nat
  closed :: bool

datatype panic = SendOnClosedChannel | CloseOfClosedChannel

definition make_chan :: "nat \<Rightarrow> chan" where
  "make_chan n = \<lparr>buf = [], cap = n, closed = False\<rparr>"

definition has_room :: "chan \<Rightarrow> bool" where
  "has_room ch = (length (buf ch) < cap ch)"

text \<open>\<open>close(ch)\<close>.\<close>

definition close_chan :: "chan \<Rightarrow> panic + chan" where
  "close_chan ch = (if closed ch then Inl CloseOfClosedChannel else Inr (ch\<lparr>closed := True\<rparr>))"

text \<open>
  \<open>select { case ch <- m: default: }\<close> on a buffered channel: the send proceeds when
  the buffer has room, the default branch is taken (\<open>None\<close>) when it is full, and the
  statement panics on a closed channel. The statement never waits.
\<close>

definition select_send :: "chan \<Rightarrow> string \<Rightarrow> panic + chan option" where
  "select_send ch m =
     (if closed ch then Inl SendOnClosedChannel
      else if has_room ch then Inr (Some (ch\<lparr>buf := buf ch @ [m]\<rparr>))
      else Inr None)"

section \<open>The hub (controllers/chats.go)\<close>

text \<open>
  A \<open>*Client\<close> is an address, a natural number here. \<open>Clients\<close> is the hub's
  \<open>map[*Client]bool\<close>, kept as an association list whose order stands for the order in
  which \<open>range\<close> visits the keys; \<open>send\<close> and \<open>Conn\<close> hold, for every client address,
  the state of its outbound channel and whether its socket is still open.
\<close>

record world =
  Clients :: "(nat \<times> bool) list"
  send :: "nat \<Rightarrow> chan"
  Conn :: "nat \<Rightarrow> bool"

text \<open>The three channels the hub loop selects on deliver these events.\<close>

datatype event = Register nat | Unregister nat | Broadcast string

text \<open>
  \<open>NewHub\<close> with the store as \<open>ServeWs\<close> sets a client up: an open socket and
  \<open>make(chan []byte, 256)\<close>.
\<close>

definition NewHub :: world where
  "NewHub = \<lparr>Clients = [], send = (\<lambda>c. make_chan 256), Conn = (\<lambda>c. True)\<rparr>"

text \<open>
  The body of \<open>for client := range h.Clients\<close> in the broadcast case, over the keys
  present when the loop starts. Only the key being visited is ever deleted, so the
  keys still to come are the ones of the snapshot.
\<close>

fun range_Clients :: "string \<Rightarrow> nat list \<Rightarrow> world \<Rightarrow> panic + world" where
  "range_Clients message [] w = Inr w"
| "range_Clients message (client # rest) w =
     (case select_send (send w client) message of
        Inl p \<Rightarrow> Inl p
      | Inr (Some ch) \<Rightarrow> range_Clients message rest (w\<lparr>send := (send w)(client := ch)\<rparr>)
      | Inr None \<Rightarrow>
          (case close_chan (send w client) of
             Inl p \<Rightarrow> Inl p
           | Inr ch \<Rightarrow>
               range_Clients message rest
                 (w\<lparr>send := (send w)(client := ch),
                    Clients := AList.delete client (Clients w)\<rparr>)))"

text \<open>One iteration of the \<open>for { select { ... } }\<close> loop of \<open>Hub.Run\<close>.\<close>

fun Run_step :: "world \<Rightarrow> event \<Rightarrow> panic + world" where
  "Run_step w (Register client) = Inr (w\<lparr>Clients := AList.update client True (Clients w)\<rparr>)"
| "Run_step w (Unregister client) =
     (case map_of (Clients w) client of
        None \<Rightarrow> Inr w
      | Some ok \<Rightarrow>
          (case close_chan (send w client) of
             Inl p \<Rightarrow> Inl p
           | Inr ch \<Rightarrow>
               Inr (w\<lparr>Clients := AList.delete client (Clients w),
                      send := (send w)(client := ch)\<rparr>)))"
| "Run_step w (Broadcast message) = range_Clients message (map fst (Clients w)) w"

text \<open>
  \<open>Hub.Run\<close> on the events it receives, in order; a panic ends the process. The hub
  goroutine is the only one that sends on or closes a client's channel, and one event
  is handled to its end before the next is received.
\<close>

fun Run :: "world \<Rightarrow> event list \<Rightarrow> panic + world" where
  "Run w [] = Inr w"
| "Run w (e # es) = (case Run_step w e of Inl p \<Rightarrow> Inl p | Inr w' \<Rightarrow> Run w' es)"

text \<open>
  The shutdown loop of \<open>main\<close> (cmd/main.go):
  \<open>for client := range routes.Hub.Clients { client.Conn.Close() }\<close>.
\<close>

fun close_conns :: "nat list \<Rightarrow> world \<Rightarrow> world" where
  "close_conns [] w = w"
| "close_conns (client # rest) w = close_conns rest (w\<lparr>Conn := (Conn w)(client := False)\<rparr>)"

definition main_shutdown :: "world \<Rightarrow> world" where
  "main_shutdown w = close_conns (map fst (Clients w)) w"

subsection \<open>Properties of reachable hub states\<close>

text \<open>
  The keys of the map are distinct, and a registered client's channel is open.
\<close>

definition hub_inv :: "world \<Rightarrow> bool" where
  "hub_inv w = (distinct (map fst (Clients w)) \<and> list_all (\<lambda>c. \<not> closed (send w c)) (map fst (Clients w)))"

text \<open>
  A sequence of events in which \<open>Register\<close> only ever names a client whose channel is
  open at that moment, as \<open>ServeWs\<close> does (it registers each client once, right after
  making its channel).
\<close>

fun regs_open :: "world \<Rightarrow> event list \<Rightarrow> bool" where
  "regs_open w [] = True"
| "regs_open w (e # es) =
     ((case e of Register c \<Rightarrow> \<not> closed (send w c) | Unregister c \<Rightarrow> True | Broadcast m \<Rightarrow> True) \<and>
      (case Run_step w e of Inl p \<Rightarrow> True | Inr w' \<Rightarrow> regs_open w' es))"

section \<open>The message store (config/schema.sql, models/chat.go)\<close>

text \<open>
  The tables \<open>chats\<close> and \<open>messages\<close>, in row order. \<open>created_at\<close> of a chat is set by
  the server clock and is read by none of the operations below. Both \<open>id\<close> columns are
  \<open>AUTO_INCREMENT\<close>; the counters are part of the store. \<open>session_chat_id\<close> is the user
  variable \<open>@chat_id\<close> of the session the statements run in, and \<open>up\<close> says whether the
  store answers at all: when it does not, every statement returns a driver error.
\<close>

record chat_row =
  c_id :: int
  c_sender_id :: int
  c_receiver_id :: int

record message_row =
  m_id :: int
  m_chat_id :: int
  m_sender_id :: int
  m_receiver_id :: int
  m_text :: string
  m_time :: string
  m_replied_message :: "string option"
  m_replied_message_id :: "int option"
  m_date :: string
  m_attached_file_path :: "string option"
  m_is_read :: bool

record DB =
  chats :: "chat_row list"
  messages :: "message_row list"
  chats_auto_increment :: int
  messages_auto_increment :: int
  session_chat_id :: "int option"
  up :: bool

text \<open>
  The errors of \<open>parseSolarDate\<close>, \<open>SolarToGregorian\<close> and \<open>AddMessage\<close>, one
  constructor for each \<open>fmt.Errorf\<close>, and \<open>DriverError\<close> for whatever
  \<open>database/sql\<close> returns (other than \<open>sql.ErrNoRows\<close>, which \<open>ChatExists\<close> handles).
\<close>

datatype error =
    DriverError
  | InvalidDateFormat
  | InvalidYear string
  | InvalidMonth string
  | InvalidDay string
  | InvalidMonthNumber int
  | InvalidDayNumber int
  | ErrorConvertingDate error
  | ErrorCheckingChat error
  | NoChatExists int int
  | InvalidChatID int int

record File =
  Name :: string
  FileType :: string
  URL :: string

record WSMessage =
  Type :: string
  ChatID :: int
  SenderID :: int
  ReceiverID :: int
  Message :: string
  Time :: string
  RepliedMessage :: "string option"
  RepliedMessageID :: "int option"
  Date :: string
  AttachedFile :: "File option"
  IsRead :: bool

text \<open>
  What the repository calls but does not contain: \<open>json.Unmarshal\<close> into a
  \<open>WSMessage\<close> (\<open>None\<close> when it returns an error), \<open>strings.TrimSpace\<close>,
  \<open>strconv.Atoi\<close> (\<open>None\<close> when it returns an error), and the calendar library:
  \<open>ptime.Date(year, month, day, 0, 0, 0, 0, ptime.Iran()).Time()\<close> and
  \<open>Format("2006-01-02")\<close> of the result. They are parameters of the model.
\<close>

datatype time_Time = Gregorian int int int

record runtime =
  json_Unmarshal :: "string \<Rightarrow> WSMessage option"
  strings_TrimSpace :: "string \<Rightarrow> string"
  strconv_Atoi :: "string \<Rightarrow> int option"
  ptime_Date :: "int \<Rightarrow> int \<Rightarrow> int \<Rightarrow> time_Time"
  time_Format :: "time_Time \<Rightarrow> string"

text \<open>\<open>strings.Split(s, sep)\<close> for a separator of one byte.\<close>

fun strings_Split :: "string \<Rightarrow> char \<Rightarrow> string list" where
  "strings_Split [] sep = [[]]"
| "strings_Split (x # xs) sep =
     (if x = sep then [] # strings_Split xs sep
      else (case strings_Split xs sep of
              [] \<Rightarrow> [[x]]
            | p # ps \<Rightarrow> (x # p) # ps))"

text \<open>utils/file_handler.go.\<close>

definition parseSolarDate :: "runtime \<Rightarrow> string \<Rightarrow> error + (int \<times> int \<times> int)" where
  "parseSolarDate rt date =
     (let parts = strings_Split (strings_TrimSpace rt date) (CHR ''-'') in
      if length parts \<noteq> 3 then Inl InvalidDateFormat
      else
        (case strconv_Atoi rt (parts ! 0) of
           None \<Rightarrow> Inl (InvalidYear (parts ! 0))
         | Some year \<Rightarrow>
             if year < 1 then Inl (InvalidYear (parts ! 0))
             else
               (case strconv_Atoi rt (parts ! 1) of
                  None \<Rightarrow> Inl (InvalidMonth (parts ! 1))
                | Some month \<Rightarrow>
                    if month < 1 \<or> month > 12 then Inl (InvalidMonth (parts ! 1))
                    else
                      (case strconv_Atoi rt (parts ! 2) of
                         None \<Rightarrow> Inl (InvalidDay (parts ! 2))
                       | Some day \<Rightarrow>
                           if day < 1 \<or> day > 31 then Inl (InvalidDay (parts ! 2))
                           else Inr (year, month, day)))))"

definition SolarToGregorian :: "runtime \<Rightarrow> string \<Rightarrow> error + time_Time" where
  "SolarToGregorian rt date =
     (case parseSolarDate rt date of
        Inl err \<Rightarrow> Inl err
      | Inr (year, month, day) \<Rightarrow>
          if month < 1 \<or> month > 12 then Inl (InvalidMonthNumber month)
          else if day < 1 \<or> day > 31 then Inl (InvalidDayNumber day)
          else Inr (ptime_Date rt year month day))"

text \<open>
  The \<open>WHERE\<close> clause shared by \<open>ChatExists\<close> and the procedure \<open>CreateChat\<close>:
  \<open>(sender_id = a AND receiver_id = b) OR (sender_id = b AND receiver_id = a)\<close>.
\<close>

definition between :: "int \<Rightarrow> int \<Rightarrow> chat_row \<Rightarrow> bool" where
  "between a b row =
     ((c_sender_id row = a \<and> c_receiver_id row = b) \<or>
      (c_sender_id row = b \<and> c_receiver_id row = a))"

text \<open>
  \<open>ChatExists\<close> (models/chat.go): \<open>QueryRow\<close> scans the first row of the result;
  \<open>sql.ErrNoRows\<close> becomes \<open>(0, nil)\<close>.
\<close>

definition ChatExists :: "DB \<Rightarrow> int \<Rightarrow> int \<Rightarrow> error + int" where
  "ChatExists db senderID receiverID =
     (if \<not> up db then Inl DriverError
      else (case filter (between senderID receiverID) (chats db) of
              [] \<Rightarrow> Inr 0
            | row # others \<Rightarrow> Inr (c_id row)))"

text \<open>
  The stored procedure \<open>CreateChat(p_sender_id, p_receiver_id, OUT p_chat_id)\<close>, run
  from its first statement to its last with no other session in between.
\<close>

definition CreateChat_procedure :: "DB \<Rightarrow> int \<Rightarrow> int \<Rightarrow> DB" where
  "CreateChat_procedure db p_sender_id p_receiver_id =
     (case filter (between p_sender_id p_receiver_id) (chats db) of
        existing # others \<Rightarrow> db\<lparr>session_chat_id := Some (c_id existing)\<rparr>
      | [] \<Rightarrow>
          db\<lparr>chats := chats db @
                 [\<lparr>c_id = chats_auto_increment db, c_sender_id = p_sender_id,
                   c_receiver_id = p_receiver_id\<rparr>],
             chats_auto_increment := chats_auto_increment db + 1,
             session_chat_id := Some (chats_auto_increment db)\<rparr>)"

text \<open>
  The procedure is not a transaction, and the table has no key on the pair: its
  \<open>SELECT id INTO existing_chat_id ... LIMIT 1\<close> and its \<open>IF ... END IF\<close> are two
  statements, and a statement of another session can run between them. The two are
  given on their own here; \<open>CreateChat_procedure\<close> above is the second run right after
  the first. The user variable belongs to the calling session; where two sessions are
  interleaved below, only the table is read.
\<close>

definition CreateChat_SELECT :: "DB \<Rightarrow> int \<Rightarrow> int \<Rightarrow> int option" where
  "CreateChat_SELECT db p_sender_id p_receiver_id =
     (case filter (between p_sender_id p_receiver_id) (chats db) of
        [] \<Rightarrow> None
      | existing # others \<Rightarrow> Some (c_id existing))"

definition CreateChat_IF :: "DB \<Rightarrow> int \<Rightarrow> int \<Rightarrow> int option \<Rightarrow> DB" where
  "CreateChat_IF db p_sender_id p_receiver_id existing_chat_id =
     (case existing_chat_id of
        Some i \<Rightarrow> db\<lparr>session_chat_id := Some i\<rparr>
      | None \<Rightarrow>
          db\<lparr>chats := chats db @
                 [\<lparr>c_id = chats_auto_increment db, c_sender_id = p_sender_id,
                   c_receiver_id = p_receiver_id\<rparr>],
             chats_auto_increment := chats_auto_increment db + 1,
             session_chat_id := Some (chats_auto_increment db)\<rparr>)"

text \<open>
  \<open>CreateChat\<close> (models/chat.go): \<open>CALL CreateChat(?, ?, @chat_id)\<close>, then
  \<open>SELECT @chat_id\<close> scanned into an \<open>int\<close>, which fails on \<open>NULL\<close>. Both statements
  run in one session here.
\<close>

definition CreateChat :: "DB \<Rightarrow> int \<Rightarrow> int \<Rightarrow> (error + int) \<times> DB" where
  "CreateChat db senderID receiverID =
     (if \<not> up db then (Inl DriverError, db)
      else
        (let db' = CreateChat_procedure db senderID receiverID in
         case session_chat_id db' of
           None \<Rightarrow> (Inl DriverError, db')
         | Some chatID \<Rightarrow> (Inr chatID, db')))"

text \<open>
  The stored procedure \<open>AddMessage\<close>: one \<open>INSERT\<close>, with \<open>NULLIF(p_replied_message, '')\<close>
  and \<open>NULLIF(p_replied_message_id, 0)\<close>. The two foreign keys of \<open>messages\<close> are
  checked: \<open>chat_id\<close> into \<open>chats(id)\<close> and \<open>replied_message_id\<close> into \<open>messages(id)\<close>.
\<close>

definition NULLIF :: "'a option \<Rightarrow> 'a \<Rightarrow> 'a option" where
  "NULLIF v x = (case v of None \<Rightarrow> None | Some y \<Rightarrow> if y = x then None else Some y)"

definition AddMessage_procedure ::
  "DB \<Rightarrow> int \<Rightarrow> int \<Rightarrow> int \<Rightarrow> string \<Rightarrow> string \<Rightarrow> string \<Rightarrow> int option \<Rightarrow> string \<Rightarrow>
   string option \<Rightarrow> bool \<Rightarrow> error option \<times> DB" where
  "AddMessage_procedure db p_chat_id p_sender_id p_receiver_id p_text p_time p_replied_message
     p_replied_message_id p_date p_attached_file_path p_is_read =
     (if \<not> up db then (Some DriverError, db)
      else if p_chat_id \<notin> set (map c_id (chats db)) then (Some DriverError, db)
      else
        (case NULLIF p_replied_message_id 0 of
           Some r \<Rightarrow> if r \<notin> set (map m_id (messages db)) then (Some DriverError, db)
                     else (None, db\<lparr>messages := messages db @
                       [\<lparr>m_id = messages_auto_increment db, m_chat_id = p_chat_id,
                         m_sender_id = p_sender_id, m_receiver_id = p_receiver_id,
                         m_text = p_text, m_time = p_time,
                         m_replied_message = NULLIF (Some p_replied_message) [],
                         m_replied_message_id = Some r, m_date = p_date,
                         m_attached_file_path = p_attached_file_path,
                         m_is_read = p_is_read\<rparr>],
                       messages_auto_increment := messages_auto_increment db + 1\<rparr>)
         | None \<Rightarrow> (None, db\<lparr>messages := messages db @
                       [\<lparr>m_id = messages_auto_increment db, m_chat_id = p_chat_id,
                         m_sender_id = p_sender_id, m_receiver_id = p_receiver_id,
                         m_text = p_text, m_time = p_time,
                         m_replied_message = NULLIF (Some p_replied_message) [],
                         m_replied_message_id = None, m_date = p_date,
                         m_attached_file_path = p_attached_file_path,
                         m_is_read = p_is_read\<rparr>],
                       messages_auto_increment := messages_auto_increment db + 1\<rparr>)))"

text \<open>\<open>AddMessage\<close> (models/chat.go).\<close>

definition AddMessage ::
  "runtime \<Rightarrow> DB \<Rightarrow> int \<Rightarrow> int \<Rightarrow> int \<Rightarrow> string \<Rightarrow> string \<Rightarrow> string \<Rightarrow> int option \<Rightarrow> string \<Rightarrow>
   File option \<Rightarrow> bool \<Rightarrow> error option \<times> DB" where
  "AddMessage rt db chatID senderID receiverID text timeStr repliedMessage repliedMessageID
     hijriDate attachedFile isRead =
     (case SolarToGregorian rt hijriDate of
        Inl err \<Rightarrow> (Some (ErrorConvertingDate err), db)
      | Inr gregorianDate \<Rightarrow>
          (let date = time_Format rt gregorianDate in
           case ChatExists db senderID receiverID of
             Inl err \<Rightarrow> (Some (ErrorCheckingChat err), db)
           | Inr existingChatID \<Rightarrow>
               if existingChatID = 0 then (Some (NoChatExists senderID receiverID), db)
               else if chatID \<noteq> 0 \<and> chatID \<noteq> existingChatID
               then (Some (InvalidChatID chatID existingChatID), db)
               else
                 (let filePath = (case attachedFile of None \<Rightarrow> None | Some f \<Rightarrow> Some (URL f)) in
                  AddMessage_procedure db existingChatID senderID receiverID text timeStr
                    repliedMessage repliedMessageID date filePath isRead)))"

section \<open>The read pump (controllers/chats.go)\<close>

text \<open>
  A client is its address (the key of the hub's map) and the authenticated user id.
  \<open>c.Conn.ReadMessage()\<close> returns a frame or an error. What the pump does to the
  outside is a list of effects: \<open>c.Conn.WriteJSON\<close> of the map with the keys \<open>error\<close>
  and \<open>details\<close> (the latter holding \<open>err.Error()\<close>), a send on one of the hub's
  channels, and \<open>c.Conn.Close()\<close>.
\<close>

record Client =
  addr :: nat
  ID :: int

datatype read = Frame string | ReadError

datatype effect = WriteJSON nat string error | ToHub event | ConnClose nat

text \<open>
  The body of the \<open>for\<close> loop after a successful read; every \<open>continue\<close> is a return.
\<close>

definition readPump_body :: "runtime \<Rightarrow> Client \<Rightarrow> DB \<Rightarrow> string \<Rightarrow> DB \<times> effect list" where
  "readPump_body rt c db message =
     (case json_Unmarshal rt message of
        None \<Rightarrow> (db, [])
      | Some msg \<Rightarrow>
          if SenderID msg \<noteq> ID c then (db, [])
          else
            (case ChatExists db (SenderID msg) (ReceiverID msg) of
               Inl err \<Rightarrow> (db, [])
             | Inr found \<Rightarrow>
                 (case (if found = 0 then CreateChat db (SenderID msg) (ReceiverID msg)
                        else (Inr found, db)) of
                    (Inl err, db1) \<Rightarrow> (db1, [])
                  | (Inr existingChatID, db1) \<Rightarrow>
                      (let msg = msg\<lparr>ChatID := existingChatID\<rparr>;
                           repliedMessage = (case RepliedMessage msg of None \<Rightarrow> [] | Some s \<Rightarrow> s)
                       in case AddMessage rt db1 (ChatID msg) (SenderID msg) (ReceiverID msg)
                                 (Message msg) (Time msg) repliedMessage (RepliedMessageID msg)
                                 (Date msg) (AttachedFile msg) (IsRead msg) of
                            (Some err, db2) \<Rightarrow>
                              (db2, [WriteJSON (addr c) ''Failed to send message'' err])
                          | (None, db2) \<Rightarrow> (db2, [ToHub (Broadcast message)])))))"

text \<open>
  \<open>readPump\<close> on the results of its reads, in order. A read error leaves the loop and
  runs the deferred function; with no further read the pump waits in \<open>ReadMessage\<close>.
  The store is the shared \<open>config.DB\<close>; in this function a frame is handled to its
  end before the next one is looked at. Pumps of different connections run as separate
  goroutines, so their store calls can interleave; that is taken up with the
  statements of \<open>CreateChat\<close>.
\<close>

fun readPump :: "runtime \<Rightarrow> Client \<Rightarrow> DB \<Rightarrow> read list \<Rightarrow> DB \<times> effect list" where
  "readPump rt c db [] = (db, [])"
| "readPump rt c db (ReadError # rest) = (db, [ToHub (Unregister (addr c)), ConnClose (addr c)])"
| "readPump rt c db (Frame message # rest) =
     (case readPump_body rt c db message of
        (db1, out) \<Rightarrow>
          (case readPump rt c db1 rest of (db2, out') \<Rightarrow> (db2, out @ out')))"

subsection \<open>Properties of the store\<close>

text \<open>The unordered pair of participants of a thread, and the invariant on the table.\<close>

definition participants :: "chat_row \<Rightarrow> int set" where
  "participants row = {c_sender_id row, c_receiver_id row}"

definition one_thread_per_pair :: "DB \<Rightarrow> bool" where
  "one_thread_per_pair db = distinct (map participants (chats db))"

section \<open>Sample data\<close>

text \<open>
  Three registered clients; the channel of client 1 is full.
\<close>

definition three_clients :: world where
  "three_clients =
     \<lparr>Clients = [(0, True), (1, True), (2, True)],
      send = (\<lambda>c. if c = 1 then \<lparr>buf = replicate 256 ''old'', cap = 256, closed = False\<rparr>
                   else make_chan 256),
      Conn = (\<lambda>c. True)\<rparr>"

text \<open>
  A stand-in for the libraries, for worked examples only: decoding by a table of three
  frames (every other frame fails to decode), trimming of blanks, \<open>Atoi\<close> on unsigned
  decimal digits, and a calendar that answers with one fixed day.
\<close>

definition hello :: WSMessage where
  "hello =
     \<lparr>Type = ''chat'', ChatID = 0, SenderID = 10, ReceiverID = 20, Message = ''hi'',
      Time = ''14:00'', RepliedMessage = None, RepliedMessageID = None,
      Date = ''1403-05-01'', AttachedFile = None, IsRead = False\<rparr>"

definition answer :: WSMessage where
  "answer =
     \<lparr>Type = ''chat'', ChatID = 0, SenderID = 20, ReceiverID = 10, Message = ''hello'',
      Time = ''14:01'', RepliedMessage = Some ''hi'', RepliedMessageID = Some 1,
      Date = ''1403-05-01'', AttachedFile = None, IsRead = False\<rparr>"

definition undated :: WSMessage where
  "undated =
     \<lparr>Type = ''chat'', ChatID = 0, SenderID = 10, ReceiverID = 20, Message = ''when'',
      Time = ''14:02'', RepliedMessage = None, RepliedMessageID = None,
      Date = ''yesterday'', AttachedFile = None, IsRead = False\<rparr>"

definition sample_frames :: "(string \<times> WSMessage) list" where
  "sample_frames = [(''{hello}'', hello), (''{answer}'', answer), (''{undated}'', undated)]"

fun sample_digits :: "int \<Rightarrow> string \<Rightarrow> int option" where
  "sample_digits acc [] = Some acc"
| "sample_digits acc (c # cs) =
     (case map_of [(CHR ''0'', 0), (CHR ''1'', 1), (CHR ''2'', 2), (CHR ''3'', 3), (CHR ''4'', 4),
                   (CHR ''5'', 5), (CHR ''6'', 6), (CHR ''7'', 7), (CHR ''8'', 8), (CHR ''9'', 9)] c of
        None \<Rightarrow> None
      | Some d \<Rightarrow> sample_digits (10 * acc + d) cs)"

definition sample_runtime :: runtime where
  "sample_runtime =
     \<lparr>json_Unmarshal = map_of sample_frames,
      strings_TrimSpace = (\<lambda>s. rev (dropWhile (\<lambda>c. c = CHR '' '') (rev (dropWhile (\<lambda>c. c = CHR '' '') s)))),
      strconv_Atoi = (\<lambda>s. if s = [] then None else sample_digits 0 s),
      ptime_Date = (\<lambda>year month day. Gregorian 2024 7 22),
      time_Format = (\<lambda>t. ''2024-07-22'')\<rparr>"

definition user10 :: Client where
  "user10 = \<lparr>addr = 0, ID = 10\<rparr>"

definition user20 :: Client where
  "user20 = \<lparr>addr = 1, ID = 20\<rparr>"

definition empty_store :: DB where
  "empty_store =
     \<lparr>chats = [], messages = [], chats_auto_increment = 1, messages_auto_increment = 1,
      session_chat_id = None, up = True\<rparr>"

definition one_chat :: DB where
  "one_chat =
     \<lparr>chats = [\<lparr>c_id = 1, c_sender_id = 10, c_receiver_id = 20\<rparr>], messages = [],
      chats_auto_increment = 2, messages_auto_increment = 1, session_chat_id = Some 1,
      up = True\<rparr>"


section \<open>The hub: proofs\<close>

lemma delete_filter: "AList.delete k al = filter (\<lambda>kv. fst kv \<noteq> k) al"
  by (induction al) auto

lemma range_Clients_result:
  "distinct cs \<Longrightarrow> \<forall>c\<in>set cs. \<not> closed (send w c) \<Longrightarrow>
   \<exists>w'. range_Clients m cs w = Inr w' \<and>
     (\<forall>c. send w' c =
        (if c \<in> set cs
         then (if has_room (send w c) then (send w c)\<lparr>buf := buf (send w c) @ [m]\<rparr>
               else (send w c)\<lparr>closed := True\<rparr>)
         else send w c)) \<and>
     Clients w' = filter (\<lambda>kv. fst kv \<in> set cs \<longrightarrow> has_room (send w (fst kv))) (Clients w) \<and>
     Conn w' = Conn w"
proof (induction cs arbitrary: w)
  case Nil
  then show ?case by simp
next
  case (Cons a cs)
  show ?case
  proof (cases "has_room (send w a)")
    case True
    let ?w1 = "w\<lparr>send := (send w)(a := (send w a)\<lparr>buf := buf (send w a) @ [m]\<rparr>)\<rparr>"
    have step: "range_Clients m (a # cs) w = range_Clients m cs ?w1"
      using Cons.prems True by (simp add: select_send_def)
    have d: "distinct cs" and na: "a \<notin> set cs" using Cons.prems by auto
    have o: "\<forall>c\<in>set cs. \<not> closed (send ?w1 c)" using Cons.prems na by auto
    from Cons.IH[OF d o] obtain w' where w': "range_Clients m cs ?w1 = Inr w'"
      "\<forall>c. send w' c =
        (if c \<in> set cs
         then (if has_room (send ?w1 c) then (send ?w1 c)\<lparr>buf := buf (send ?w1 c) @ [m]\<rparr>
               else (send ?w1 c)\<lparr>closed := True\<rparr>)
         else send ?w1 c)"
      "Clients w' = filter (\<lambda>kv. fst kv \<in> set cs \<longrightarrow> has_room (send ?w1 (fst kv))) (Clients ?w1)"
      "Conn w' = Conn ?w1" by blast
    have f: "filter (\<lambda>kv. fst kv \<in> set cs \<longrightarrow> has_room (send ?w1 (fst kv))) (Clients w)
           = filter (\<lambda>kv. fst kv \<in> set (a # cs) \<longrightarrow> has_room (send w (fst kv))) (Clients w)"
      using na True by (intro filter_cong) auto
    have r: "range_Clients m (a # cs) w = Inr w'" by (simp only: step w'(1))
    have s: "\<forall>c. send w' c =
        (if c \<in> set (a # cs)
         then (if has_room (send w c) then (send w c)\<lparr>buf := buf (send w c) @ [m]\<rparr>
               else (send w c)\<lparr>closed := True\<rparr>)
         else send w c)" using w'(2) na True by auto
    have c: "Clients w' = filter (\<lambda>kv. fst kv \<in> set (a # cs) \<longrightarrow> has_room (send w (fst kv))) (Clients w)"
      using w'(3) f by simp
    have "Conn w' = Conn w" using w'(4) by simp
    with r s c show ?thesis by blast
  next
    case False
    let ?w1 = "w\<lparr>send := (send w)(a := (send w a)\<lparr>closed := True\<rparr>), Clients := AList.delete a (Clients w)\<rparr>"
    have step: "range_Clients m (a # cs) w = range_Clients m cs ?w1"
      using Cons.prems False by (simp add: select_send_def close_chan_def)
    have d: "distinct cs" and na: "a \<notin> set cs" using Cons.prems by auto
    have o: "\<forall>c\<in>set cs. \<not> closed (send ?w1 c)" using Cons.prems na by auto
    from Cons.IH[OF d o] obtain w' where w': "range_Clients m cs ?w1 = Inr w'"
      "\<forall>c. send w' c =
        (if c \<in> set cs
         then (if has_room (send ?w1 c) then (send ?w1 c)\<lparr>buf := buf (send ?w1 c) @ [m]\<rparr>
               else (send ?w1 c)\<lparr>closed := True\<rparr>)
         else send ?w1 c)"
      "Clients w' = filter (\<lambda>kv. fst kv \<in> set cs \<longrightarrow> has_room (send ?w1 (fst kv))) (Clients ?w1)"
      "Conn w' = Conn ?w1" by blast
    have f: "filter (\<lambda>kv. fst kv \<in> set cs \<longrightarrow> has_room (send ?w1 (fst kv))) (AList.delete a (Clients w))
           = filter (\<lambda>kv. fst kv \<in> set (a # cs) \<longrightarrow> has_room (send w (fst kv))) (Clients w)"
      unfolding delete_filter filter_filter using na False by (intro filter_cong) auto
    have r: "range_Clients m (a # cs) w = Inr w'" by (simp only: step w'(1))
    have s: "\<forall>c. send w' c =
        (if c \<in> set (a # cs)
         then (if has_room (send w c) then (send w c)\<lparr>buf := buf (send w c) @ [m]\<rparr>
               else (send w c)\<lparr>closed := True\<rparr>)
         else send w c)" using w'(2) na False by auto
    have c: "Clients w' = filter (\<lambda>kv. fst kv \<in> set (a # cs) \<longrightarrow> has_room (send w (fst kv))) (Clients w)"
      using w'(3) f by simp
    have "Conn w' = Conn w" using w'(4) by simp
    with r s c show ?thesis by blast
  qed
qed


lemma range_Clients_closed_frozen:
  "closed (send w c) \<Longrightarrow> range_Clients m cs w = Inr w' \<Longrightarrow> send w' c = send w c"
proof (induction cs arbitrary: w)
  case Nil
  then show ?case by simp
next
  case (Cons a cs)
  have ne: "a \<noteq> c"
    using Cons.prems by (auto simp: select_send_def)
  show ?case
  proof (cases "has_room (send w a)")
    case True
    let ?w1 = "w\<lparr>send := (send w)(a := (send w a)\<lparr>buf := buf (send w a) @ [m]\<rparr>)\<rparr>"
    have "range_Clients m cs ?w1 = Inr w'"
      using Cons.prems(2) True by (simp add: select_send_def split: if_splits)
    moreover have "closed (send ?w1 c)" using Cons.prems(1) ne by simp
    ultimately have "send w' c = send ?w1 c" by (rule Cons.IH[rotated])
    then show ?thesis using ne by simp
  next
    case False
    let ?w1 = "w\<lparr>send := (send w)(a := (send w a)\<lparr>closed := True\<rparr>), Clients := AList.delete a (Clients w)\<rparr>"
    have "range_Clients m cs ?w1 = Inr w'"
      using Cons.prems(2) False by (simp add: select_send_def close_chan_def split: if_splits)
    moreover have "closed (send ?w1 c)" using Cons.prems(1) ne by simp
    ultimately have "send w' c = send ?w1 c" by (rule Cons.IH[rotated])
    then show ?thesis using ne by simp
  qed
qed

lemma Run_step_closed_frozen:
  "closed (send w c) \<Longrightarrow> Run_step w e = Inr w' \<Longrightarrow> send w' c = send w c"
proof (cases e)
  case (Register x)
  assume "Run_step w e = Inr w'"
  then show ?thesis using Register by auto
next
  case (Unregister x)
  assume a: "closed (send w c)" "Run_step w e = Inr w'"
  then show ?thesis using Unregister
    by (auto simp: close_chan_def split: option.splits if_splits)
next
  case (Broadcast m)
  assume a: "closed (send w c)" "Run_step w e = Inr w'"
  then show ?thesis using Broadcast by (simp add: range_Clients_closed_frozen)
qed

lemma Run_closed_frozen:
  "closed (send w c) \<Longrightarrow> Run w es = Inr w' \<Longrightarrow> send w' c = send w c"
proof (induction es arbitrary: w)
  case Nil
  then show ?case by simp
next
  case (Cons e es)
  from Cons.prems(2) obtain w1 where w1: "Run_step w e = Inr w1" "Run w1 es = Inr w'"
    by (auto split: sum.splits)
  have s1: "send w1 c = send w c" using Cons.prems(1) w1(1) by (rule Run_step_closed_frozen)
  then have "closed (send w1 c)" using Cons.prems(1) by simp
  then have "send w' c = send w1 c" using w1(2) by (rule Cons.IH)
  then show ?case using s1 by simp
qed

lemma Broadcast_result:
  assumes "hub_inv w"
  shows "\<exists>w'. Run_step w (Broadcast m) = Inr w' \<and>
     (\<forall>c. send w' c =
        (if map_of (Clients w) c \<noteq> None
         then (if has_room (send w c) then (send w c)\<lparr>buf := buf (send w c) @ [m]\<rparr>
               else (send w c)\<lparr>closed := True\<rparr>)
         else send w c)) \<and>
     Clients w' = filter (\<lambda>kv. has_room (send w (fst kv))) (Clients w) \<and>
     Conn w' = Conn w"
proof -
  have d: "distinct (map fst (Clients w))"
    and o: "\<forall>c\<in>set (map fst (Clients w)). \<not> closed (send w c)"
    using assms by (auto simp: hub_inv_def list_all_iff)
  from range_Clients_result[OF d o, of m] obtain w' where
    r: "range_Clients m (map fst (Clients w)) w = Inr w'"
    and s: "\<forall>c. send w' c =
        (if c \<in> set (map fst (Clients w))
         then (if has_room (send w c) then (send w c)\<lparr>buf := buf (send w c) @ [m]\<rparr>
               else (send w c)\<lparr>closed := True\<rparr>)
         else send w c)"
    and c: "Clients w' = filter (\<lambda>kv. fst kv \<in> set (map fst (Clients w)) \<longrightarrow> has_room (send w (fst kv))) (Clients w)"
    and k: "Conn w' = Conn w" by blast
  have m: "\<And>c. (c \<in> set (map fst (Clients w))) = (map_of (Clients w) c \<noteq> None)"
    by (simp add: map_of_eq_None_iff)
  have s': "\<forall>c. send w' c =
        (if map_of (Clients w) c \<noteq> None
         then (if has_room (send w c) then (send w c)\<lparr>buf := buf (send w c) @ [m]\<rparr>
               else (send w c)\<lparr>closed := True\<rparr>)
         else send w c)"
    using s unfolding m .
  have c': "Clients w' = filter (\<lambda>kv. has_room (send w (fst kv))) (Clients w)"
    unfolding c by (intro filter_cong) auto
  have "Run_step w (Broadcast m) = Inr w'" using r by simp
  with s' c' k show ?thesis by blast
qed

lemma Run_step_inv:
  assumes "hub_inv w" "case e of Register c \<Rightarrow> \<not> closed (send w c) | Unregister c \<Rightarrow> True | Broadcast m \<Rightarrow> True"
  shows "\<exists>w'. Run_step w e = Inr w' \<and> hub_inv w'"
proof (cases e)
  case (Register c)
  have k: "set (map fst (AList.update c True (Clients w))) = insert c (set (map fst (Clients w)))"
    by (simp add: dom_update)
  have "distinct (map fst (AList.update c True (Clients w)))"
    using assms(1) by (simp add: hub_inv_def distinct_update)
  moreover have "\<forall>x\<in>set (map fst (AList.update c True (Clients w))). \<not> closed (send w x)"
    unfolding k using assms Register by (auto simp: hub_inv_def list_all_iff)
  ultimately show ?thesis using Register by (simp add: hub_inv_def list_all_iff)
next
  case (Unregister c)
  show ?thesis
  proof (cases "map_of (Clients w) c")
    case None
    then show ?thesis using Unregister assms by simp
  next
    case (Some ok)
    then have "c \<in> set (map fst (Clients w))"
      using map_of_eq_None_iff[of "Clients w" c] by simp
    then have "\<not> closed (send w c)" using assms by (auto simp: hub_inv_def list_all_iff)
    then show ?thesis using Unregister Some assms
      by (auto simp: close_chan_def hub_inv_def list_all_iff delete_filter distinct_map_filter)
  qed
next
  case (Broadcast m)
  from Broadcast_result[OF assms(1), of m] obtain w' where
    r: "Run_step w (Broadcast m) = Inr w'"
    and s: "\<forall>c. send w' c =
        (if map_of (Clients w) c \<noteq> None
         then (if has_room (send w c) then (send w c)\<lparr>buf := buf (send w c) @ [m]\<rparr>
               else (send w c)\<lparr>closed := True\<rparr>)
         else send w c)"
    and c: "Clients w' = filter (\<lambda>kv. has_room (send w (fst kv))) (Clients w)" by blast
  have "distinct (map fst (Clients w'))"
    using assms(1) unfolding c hub_inv_def by (simp add: distinct_map_filter)
  moreover have "\<forall>x\<in>set (map fst (Clients w')). \<not> closed (send w' x)"
    using assms(1) unfolding c hub_inv_def list_all_iff
    by (auto simp: s map_of_eq_None_iff)
  ultimately show ?thesis using r Broadcast by (auto simp: hub_inv_def list_all_iff)
qed

lemma Run_inv:
  "hub_inv w \<Longrightarrow> regs_open w es \<Longrightarrow> \<exists>w'. Run w es = Inr w' \<and> hub_inv w'"
proof (induction es arbitrary: w)
  case Nil
  then show ?case by simp
next
  case (Cons e es)
  from Cons.prems have ok: "case e of Register c \<Rightarrow> \<not> closed (send w c) | Unregister c \<Rightarrow> True | Broadcast m \<Rightarrow> True"
    by simp
  from Run_step_inv[OF Cons.prems(1) ok] obtain w1 where w1: "Run_step w e = Inr w1" "hub_inv w1"
    by blast
  then have "regs_open w1 es" using Cons.prems(2) by simp
  from Cons.IH[OF w1(2) this] show ?case using w1(1) by simp
qed


lemma map_of_filter_key:
  "map_of (filter (\<lambda>kv. P (fst kv)) al) k = (if P k then map_of al k else None)"
  by (induction al) auto

lemma Run_step_gone_closed:
  assumes "hub_inv w"
    and "case e of Register x \<Rightarrow> \<not> closed (send w x) | Unregister x \<Rightarrow> True | Broadcast m \<Rightarrow> True"
    and "Run_step w e = Inr w'"
    and "map_of (Clients w) c \<noteq> None \<or> closed (send w c)"
  shows "map_of (Clients w') c \<noteq> None \<or> closed (send w' c)"
proof (cases e)
  case (Register x)
  then show ?thesis using assms by (auto simp: update_conv')
next
  case (Unregister x)
  then show ?thesis using assms
    by (auto simp: close_chan_def delete_conv' split: option.splits if_splits)
next
  case (Broadcast m)
  from Broadcast_result[OF assms(1), of m] assms(3) Broadcast have
    s: "\<forall>c. send w' c =
        (if map_of (Clients w) c \<noteq> None
         then (if has_room (send w c) then (send w c)\<lparr>buf := buf (send w c) @ [m]\<rparr>
               else (send w c)\<lparr>closed := True\<rparr>)
         else send w c)"
    and c: "Clients w' = filter (\<lambda>kv. has_room (send w (fst kv))) (Clients w)" by auto
  show ?thesis
  proof (cases "map_of (Clients w) c \<noteq> None")
    case True
    then show ?thesis
      using s map_of_filter_key[of "\<lambda>k. has_room (send w k)" "Clients w" c] unfolding c by auto
  next
    case False
    then show ?thesis using s assms(4) by auto
  qed
qed

lemma Run_gone_closed:
  "hub_inv w \<Longrightarrow> regs_open w es \<Longrightarrow> Run w es = Inr w' \<Longrightarrow>
   map_of (Clients w) c \<noteq> None \<or> closed (send w c) \<Longrightarrow>
   map_of (Clients w') c \<noteq> None \<or> closed (send w' c)"
proof (induction es arbitrary: w)
  case Nil
  then show ?case by simp
next
  case (Cons e es)
  from Cons.prems have ok: "case e of Register c \<Rightarrow> \<not> closed (send w c) | Unregister c \<Rightarrow> True | Broadcast m \<Rightarrow> True"
    by simp
  from Run_step_inv[OF Cons.prems(1) ok] obtain w1 where w1: "Run_step w e = Inr w1" "hub_inv w1"
    by blast
  have r: "regs_open w1 es" using Cons.prems(2) w1(1) by simp
  have run: "Run w1 es = Inr w'" using Cons.prems(3) w1(1) by simp
  have "map_of (Clients w1) c \<noteq> None \<or> closed (send w1 c)"
    using Cons.prems(1) ok w1(1) Cons.prems(4) by (rule Run_step_gone_closed)
  with Cons.IH[OF w1(2) r run] show ?case .
qed

lemma close_conns_result:
  "Clients (close_conns cs w) = Clients w \<and> send (close_conns cs w) = send w \<and>
   (\<forall>c. Conn (close_conns cs w) c = (Conn w c \<and> c \<notin> set cs))"
  by (induction cs arbitrary: w) auto

lemma Run_Unregister_all:
  "hub_inv w \<Longrightarrow>
   \<exists>w'. Run w (map Unregister cs) = Inr w' \<and> hub_inv w' \<and>
     Clients w' = filter (\<lambda>kv. fst kv \<notin> set cs) (Clients w) \<and>
     (\<forall>c. send w' c = (if c \<in> set cs \<and> map_of (Clients w) c \<noteq> None
                       then (send w c)\<lparr>closed := True\<rparr> else send w c)) \<and>
     Conn w' = Conn w"
proof (induction cs arbitrary: w)
  case Nil
  then show ?case by simp
next
  case (Cons a cs)
  show ?case
  proof (cases "map_of (Clients w) a")
    case None
    then have st: "Run_step w (Unregister a) = Inr w" by simp
    have f: "filter (\<lambda>kv. fst kv \<notin> set cs) (Clients w) = filter (\<lambda>kv. fst kv \<notin> set (a # cs)) (Clients w)"
      using None by (intro filter_cong) (auto simp: map_of_eq_None_iff)
    from Cons.IH[OF Cons.prems] obtain w' where w': "Run w (map Unregister cs) = Inr w'" "hub_inv w'"
      "Clients w' = filter (\<lambda>kv. fst kv \<notin> set cs) (Clients w)"
      "\<forall>c. send w' c = (if c \<in> set cs \<and> map_of (Clients w) c \<noteq> None
                       then (send w c)\<lparr>closed := True\<rparr> else send w c)"
      "Conn w' = Conn w" by blast
    have r: "Run w (map Unregister (a # cs)) = Inr w'" using st w'(1) by simp
    have s: "\<forall>c. send w' c = (if c \<in> set (a # cs) \<and> map_of (Clients w) c \<noteq> None
                       then (send w c)\<lparr>closed := True\<rparr> else send w c)"
      using w'(4) None by auto
    show ?thesis using r w'(2) w'(3)[unfolded f] s w'(5) by blast
  next
    case (Some ok)
    then have "a \<in> set (map fst (Clients w))"
      using map_of_eq_None_iff[of "Clients w" a] by simp
    then have op: "\<not> closed (send w a)" using Cons.prems by (auto simp: hub_inv_def list_all_iff)
    let ?w1 = "w\<lparr>Clients := AList.delete a (Clients w), send := (send w)(a := (send w a)\<lparr>closed := True\<rparr>)\<rparr>"
    have st: "Run_step w (Unregister a) = Inr ?w1" using Some op by (simp add: close_chan_def)
    have "\<exists>w1. Run_step w (Unregister a) = Inr w1 \<and> hub_inv w1"
      using Cons.prems by (intro Run_step_inv) auto
    then have inv1: "hub_inv ?w1" using st by simp
    from Cons.IH[OF inv1] obtain w' where w': "Run ?w1 (map Unregister cs) = Inr w'" "hub_inv w'"
      "Clients w' = filter (\<lambda>kv. fst kv \<notin> set cs) (Clients ?w1)"
      "\<forall>c. send w' c = (if c \<in> set cs \<and> map_of (Clients ?w1) c \<noteq> None
                       then (send ?w1 c)\<lparr>closed := True\<rparr> else send ?w1 c)"
      "Conn w' = Conn ?w1" by blast
    have r: "Run w (map Unregister (a # cs)) = Inr w'" using st w'(1) by simp
    have c: "Clients w' = filter (\<lambda>kv. fst kv \<notin> set (a # cs)) (Clients w)"
      using w'(3) by (simp add: delete_filter)
    have s: "\<forall>c. send w' c = (if c \<in> set (a # cs) \<and> map_of (Clients w) c \<noteq> None
                       then (send w c)\<lparr>closed := True\<rparr> else send w c)"
      using w'(4) Some by (auto simp: delete_conv')
    have "Conn w' = Conn w" using w'(5) by simp
    with r w'(2) c s show ?thesis by blast
  qed
qed


text \<open>
  C1. In a hub state where every registered client's channel is open, a
  \<open>Broadcast\<close> event is processed to the end without blocking and without a panic.
  Every registered client whose channel has room gets the payload appended to its
  channel and stays registered; every registered client whose channel is full has its
  channel closed (its contents untouched) and is removed from the map; clients that are
  not registered are not touched.
\<close>

theorem Broadcast_drops_only_full_recipients:
  assumes "hub_inv w"
  shows "\<exists>w'. Run_step w (Broadcast payload) = Inr w' \<and>
     (\<forall>c. map_of (Clients w) c \<noteq> None \<longrightarrow>
        (has_room (send w c) \<longrightarrow>
           send w' c = (send w c)\<lparr>buf := buf (send w c) @ [payload]\<rparr> \<and>
           map_of (Clients w') c \<noteq> None) \<and>
        (\<not> has_room (send w c) \<longrightarrow>
           send w' c = (send w c)\<lparr>closed := True\<rparr> \<and> map_of (Clients w') c = None)) \<and>
     (\<forall>c. map_of (Clients w) c = None \<longrightarrow>
        send w' c = send w c \<and> map_of (Clients w') c = None)"
proof -
  from Broadcast_result[OF assms, of payload] obtain w' where
    r: "Run_step w (Broadcast payload) = Inr w'"
    and s: "\<forall>c. send w' c =
        (if map_of (Clients w) c \<noteq> None
         then (if has_room (send w c) then (send w c)\<lparr>buf := buf (send w c) @ [payload]\<rparr>
               else (send w c)\<lparr>closed := True\<rparr>)
         else send w c)"
    and c: "Clients w' = filter (\<lambda>kv. has_room (send w (fst kv))) (Clients w)" by blast
  have m: "\<And>k. map_of (Clients w') k = (if has_room (send w k) then map_of (Clients w) k else None)"
    unfolding c using map_of_filter_key[of "\<lambda>k. has_room (send w k)" "Clients w"] by simp
  have a: "\<forall>c. map_of (Clients w) c \<noteq> None \<longrightarrow>
        (has_room (send w c) \<longrightarrow>
           send w' c = (send w c)\<lparr>buf := buf (send w c) @ [payload]\<rparr> \<and>
           map_of (Clients w') c \<noteq> None) \<and>
        (\<not> has_room (send w c) \<longrightarrow>
           send w' c = (send w c)\<lparr>closed := True\<rparr> \<and> map_of (Clients w') c = None)"
    using s m by simp
  have b: "\<forall>c. map_of (Clients w) c = None \<longrightarrow>
        send w' c = send w c \<and> map_of (Clients w') c = None"
    using s m by simp
  from r a b show ?thesis by blast
qed

text \<open>The sample state satisfies the invariant.\<close>

lemma hub_inv_three_clients: "hub_inv three_clients"
  by (simp add: hub_inv_def three_clients_def make_chan_def)

text \<open>
  C1 at the sample state: clients 0 and 2 receive \<open>hi\<close> and stay, client 1 is dropped.
\<close>

theorem Broadcast_drops_only_full_recipients_witness:
  "hub_inv three_clients \<and>
   (\<exists>w'. Run_step three_clients (Broadcast ''hi'') = Inr w' \<and>
      buf (send w' 0) = [''hi''] \<and> map_of (Clients w') 0 \<noteq> None \<and>
      closed (send w' 1) \<and> map_of (Clients w') 1 = None \<and>
      buf (send w' 2) = [''hi''] \<and> map_of (Clients w') 2 \<noteq> None)"
proof -
  have h: "hub_inv three_clients" by (rule hub_inv_three_clients)
  from Broadcast_drops_only_full_recipients[OF h, of "''hi''"] obtain w' where
    r: "Run_step three_clients (Broadcast ''hi'') = Inr w'"
    and a: "\<forall>c. map_of (Clients three_clients) c \<noteq> None \<longrightarrow>
        (has_room (send three_clients c) \<longrightarrow>
           send w' c = (send three_clients c)\<lparr>buf := buf (send three_clients c) @ [''hi'']\<rparr> \<and>
           map_of (Clients w') c \<noteq> None) \<and>
        (\<not> has_room (send three_clients c) \<longrightarrow>
           send w' c = (send three_clients c)\<lparr>closed := True\<rparr> \<and> map_of (Clients w') c = None)"
    by blast
  have "buf (send w' 0) = [''hi''] \<and> map_of (Clients w') 0 \<noteq> None"
    using a[rule_format, of 0] by (simp add: three_clients_def make_chan_def has_room_def)
  moreover have "closed (send w' 1) \<and> map_of (Clients w') 1 = None"
    using a[rule_format, of 1] by (simp add: three_clients_def make_chan_def has_room_def)
  moreover have "buf (send w' 2) = [''hi''] \<and> map_of (Clients w') 2 \<noteq> None"
    using a[rule_format, of 2] by (simp add: three_clients_def make_chan_def has_room_def)
  ultimately show ?thesis using h r by blast
qed

text \<open>
  C4, as amended. \<open>Unregister\<close> of a client that is not in the map leaves the state as
  it is. Along every sequence of events that registers a client only while its channel
  is open, starting from a state where registered clients have open channels, the hub
  loop never panics, so no channel is closed twice and nothing is sent on a closed
  channel; a channel that is closed keeps its contents for the rest of the run, and a
  registered client that has left the map by the end has its channel closed.
\<close>

theorem Unregister_idempotent_closes_once:
  "(map_of (Clients w) c = None \<longrightarrow> Run_step w (Unregister c) = Inr w) \<and>
   (hub_inv w \<and> regs_open w es \<longrightarrow>
      (\<exists>w'. Run w es = Inr w' \<and> hub_inv w' \<and>
         (closed (send w c) \<longrightarrow> send w' c = send w c) \<and>
         (map_of (Clients w) c \<noteq> None \<and> map_of (Clients w') c = None \<longrightarrow> closed (send w' c))))"
proof (intro conjI impI)
  assume "map_of (Clients w) c = None"
  then show "Run_step w (Unregister c) = Inr w" by simp
next
  assume a: "hub_inv w \<and> regs_open w es"
  then obtain w' where w': "Run w es = Inr w'" "hub_inv w'" using Run_inv by blast
  have f: "closed (send w c) \<longrightarrow> send w' c = send w c"
    using w'(1) Run_closed_frozen by blast
  have g: "map_of (Clients w) c \<noteq> None \<and> map_of (Clients w') c = None \<longrightarrow> closed (send w' c)"
    using Run_gone_closed[of w es w' c] a w'(1) by blast
  from w' f g show "\<exists>w'. Run w es = Inr w' \<and> hub_inv w' \<and>
         (closed (send w c) \<longrightarrow> send w' c = send w c) \<and>
         (map_of (Clients w) c \<noteq> None \<and> map_of (Clients w') c = None \<longrightarrow> closed (send w' c))"
    by blast
qed

text \<open>Unfolding the channel operations on concrete states.\<close>

lemmas hub_eval = NewHub_def make_chan_def has_room_def select_send_def close_chan_def
  hub_inv_def

text \<open>
  C4 at the sample state: a broadcast that drops client 1, two \<open>Unregister\<close> events
  for client 0 and a late one for the dropped client 1.
\<close>

theorem Unregister_idempotent_closes_once_witness:
  "map_of (Clients three_clients) 7 = None \<and>
   Run_step three_clients (Unregister 7) = Inr three_clients \<and>
   hub_inv three_clients \<and>
   regs_open three_clients [Broadcast ''a'', Unregister 0, Register 3, Unregister 0, Unregister 1] \<and>
   (\<exists>w'. Run three_clients [Broadcast ''a'', Unregister 0, Register 3, Unregister 0, Unregister 1] = Inr w' \<and>
      hub_inv w' \<and> map_of (Clients w') 0 = None \<and> closed (send w' 0))"
proof -
  let ?es = "[Broadcast ''a'', Unregister 0, Register 3, Unregister 0, Unregister 1]"
  have n: "map_of (Clients three_clients) 7 = None" by (simp add: three_clients_def)
  have h: "hub_inv three_clients" by (rule hub_inv_three_clients)
  have r: "regs_open three_clients ?es"
    by (simp add: three_clients_def hub_eval)
  have k: "map_of (Clients three_clients) 0 \<noteq> None" by (simp add: three_clients_def)
  have e: "\<And>w'. Run three_clients ?es = Inr w' \<Longrightarrow> map_of (Clients w') 0 = None"
    by (auto simp: three_clients_def hub_eval)
  from Unregister_idempotent_closes_once[of three_clients 7 ?es] n h r
  have u: "Run_step three_clients (Unregister 7) = Inr three_clients" by blast
  from Unregister_idempotent_closes_once[of three_clients 0 ?es] h r obtain w' where
    "Run three_clients ?es = Inr w'" "hub_inv w'"
    "map_of (Clients three_clients) 0 \<noteq> None \<and> map_of (Clients w') 0 = None \<longrightarrow> closed (send w' 0)"
    by blast
  with n u h r k e show ?thesis by blast
qed

text \<open>
  C4 as stated, for every sequence of events, fails: when a client is registered again
  after its channel was closed, the next \<open>Unregister\<close> closes the channel a second time
  and the next \<open>Broadcast\<close> sends on the closed channel. Go panics in both cases.
\<close>

theorem Register_after_close_panics:
  "Run NewHub [Register 0, Unregister 0, Register 0, Unregister 0] = Inl CloseOfClosedChannel \<and>
   Run NewHub [Register 0, Unregister 0, Register 0, Broadcast ''x''] = Inl SendOnClosedChannel"
  by (simp add: hub_eval)


text \<open>
  C8, as amended. The shutdown loop of \<open>main\<close> closes the socket of every registered
  client and of no other; it leaves the map and every outbound channel as they were.
  A client is removed from the map, with its channel closed, once the hub loop
  processes the \<open>Unregister\<close> that the client's read pump sends when its read fails.
\<close>

theorem main_shutdown_closes_sockets_only:
  "Clients (main_shutdown w) = Clients w \<and> send (main_shutdown w) = send w \<and>
   (\<forall>c. Conn (main_shutdown w) c = (Conn w c \<and> map_of (Clients w) c = None)) \<and>
   (hub_inv w \<longrightarrow>
      (\<exists>w'. Run (main_shutdown w) (map Unregister (map fst (Clients w))) = Inr w' \<and>
         Clients w' = [] \<and>
         (\<forall>c. map_of (Clients w) c \<noteq> None \<longrightarrow> closed (send w' c) \<and> \<not> Conn w' c)))"
proof -
  let ?ks = "map fst (Clients w)"
  have cc: "Clients (main_shutdown w) = Clients w" "send (main_shutdown w) = send w"
    "\<forall>c. Conn (main_shutdown w) c = (Conn w c \<and> c \<notin> set ?ks)"
    unfolding main_shutdown_def using close_conns_result[of ?ks w] by auto
  have k: "\<And>c. (c \<notin> set ?ks) = (map_of (Clients w) c = None)"
    by (simp add: map_of_eq_None_iff)
  have conn: "\<forall>c. Conn (main_shutdown w) c = (Conn w c \<and> map_of (Clients w) c = None)"
    using cc(3) unfolding k .
  have after: "\<exists>w'. Run (main_shutdown w) (map Unregister ?ks) = Inr w' \<and>
         Clients w' = [] \<and>
         (\<forall>c. map_of (Clients w) c \<noteq> None \<longrightarrow> closed (send w' c) \<and> \<not> Conn w' c)"
    if inv: "hub_inv w"
  proof -
    have "hub_inv (main_shutdown w)" using inv cc by (simp add: hub_inv_def)
    from Run_Unregister_all[OF this, of ?ks] obtain w' where
      r: "Run (main_shutdown w) (map Unregister ?ks) = Inr w'"
      and c: "Clients w' = filter (\<lambda>kv. fst kv \<notin> set ?ks) (Clients (main_shutdown w))"
      and s: "\<forall>c. send w' c = (if c \<in> set ?ks \<and> map_of (Clients (main_shutdown w)) c \<noteq> None
                       then (send (main_shutdown w) c)\<lparr>closed := True\<rparr> else send (main_shutdown w) c)"
      and n: "Conn w' = Conn (main_shutdown w)" by blast
    have e: "Clients w' = []" unfolding c cc by (simp add: filter_empty_conv)
    have "\<forall>c. map_of (Clients w) c \<noteq> None \<longrightarrow> closed (send w' c) \<and> \<not> Conn w' c"
      using s n conn k unfolding cc by auto
    with r e show ?thesis by blast
  qed
  from cc(1,2) conn after show ?thesis by blast
qed

text \<open>C8, as amended, at the sample state.\<close>

theorem main_shutdown_closes_sockets_only_witness:
  "hub_inv three_clients \<and> map_of (Clients three_clients) 2 \<noteq> None \<and>
   \<not> Conn (main_shutdown three_clients) 2 \<and>
   (\<exists>w'. Run (main_shutdown three_clients) [Unregister 0, Unregister 1, Unregister 2] = Inr w' \<and>
      Clients w' = [] \<and> closed (send w' 2) \<and> \<not> Conn w' 2)"
proof -
  have h: "hub_inv three_clients" by (rule hub_inv_three_clients)
  have k: "map_of (Clients three_clients) 2 \<noteq> None" by (simp add: three_clients_def)
  have ks: "map Unregister (map fst (Clients three_clients)) = [Unregister 0, Unregister 1, Unregister 2]"
    by (simp add: three_clients_def)
  note t = main_shutdown_closes_sockets_only[of three_clients, unfolded ks]
  from t k have c: "\<not> Conn (main_shutdown three_clients) 2" by simp
  from t h obtain w' where
    "Run (main_shutdown three_clients) [Unregister 0, Unregister 1, Unregister 2] = Inr w'"
    "Clients w' = []"
    "\<forall>c. map_of (Clients three_clients) c \<noteq> None \<longrightarrow> closed (send w' c) \<and> \<not> Conn w' c"
    by auto
  with h k c show ?thesis by auto
qed

text \<open>
  C8 as stated fails: right after the shutdown loop, client 0 of the sample state has
  its socket closed but is still in the map and its outbound channel is still open.
\<close>

theorem main_shutdown_leaves_registry:
  "map_of (Clients (main_shutdown three_clients)) 0 = Some True \<and>
   \<not> closed (send (main_shutdown three_clients) 0) \<and>
   \<not> Conn (main_shutdown three_clients) 0"
  by (simp add: main_shutdown_def three_clients_def make_chan_def)
section \<open>The read pump: proofs\<close>

text \<open>Unfolding the sample data and the store operations on concrete inputs.\<close>

lemmas sample_eval = sample_runtime_def sample_frames_def hello_def answer_def undated_def
  user10_def user20_def empty_store_def

lemmas store_eval = SolarToGregorian_def parseSolarDate_def ChatExists_def CreateChat_def
  CreateChat_procedure_def AddMessage_def AddMessage_procedure_def NULLIF_def between_def


text \<open>
  C7. A frame that \<open>json.Unmarshal\<close> rejects has no effect at all: the store is not
  touched, nothing is written to any socket, nothing is sent to the hub (no broadcast,
  no unregister), the socket is not closed, and the pump goes on with the next read
  exactly as if the frame had not arrived.
\<close>

theorem undecodable_frame_is_skipped:
  assumes "json_Unmarshal rt message = None"
  shows "readPump_body rt c db message = (db, []) \<and>
         readPump rt c db (Frame message # rest) = readPump rt c db rest"
  using assms by (simp add: readPump_body_def split: prod.splits)

text \<open>C7 on a frame the sample decoder rejects, followed by the end of the connection.\<close>

theorem undecodable_frame_is_skipped_witness:
  "json_Unmarshal sample_runtime ''junk'' = None \<and>
   readPump_body sample_runtime user10 empty_store ''junk'' = (empty_store, []) \<and>
   readPump sample_runtime user10 empty_store [Frame ''junk'', ReadError] =
     (empty_store, [ToHub (Unregister 0), ConnClose 0])"
proof -
  have d: "json_Unmarshal sample_runtime ''junk'' = None" by (simp add: sample_eval)
  from undecodable_frame_is_skipped[OF d, of user10 empty_store "[ReadError]"] d
  show ?thesis by (simp add: user10_def)
qed

text \<open>
  C2. A frame that decodes to an envelope whose \<open>sender_id\<close> is not the user id of the
  connection has no effect at all: no row is written, nothing is broadcast, nothing is
  written back to the client, no unregister is sent and the socket is not closed; the
  pump goes on with the next read.
\<close>

theorem foreign_sender_is_skipped:
  assumes "json_Unmarshal rt message = Some msg" and "SenderID msg \<noteq> ID c"
  shows "readPump_body rt c db message = (db, []) \<and>
         readPump rt c db (Frame message # rest) = readPump rt c db rest"
  using assms by (simp add: readPump_body_def split: prod.splits)

text \<open>C2 on the connection of user 10 receiving an envelope that names user 20 as sender.\<close>

theorem foreign_sender_is_skipped_witness:
  "json_Unmarshal sample_runtime ''{answer}'' = Some answer \<and> SenderID answer \<noteq> ID user10 \<and>
   readPump_body sample_runtime user10 empty_store ''{answer}'' = (empty_store, []) \<and>
   readPump sample_runtime user10 empty_store [Frame ''{answer}'', ReadError] =
     (empty_store, [ToHub (Unregister 0), ConnClose 0])"
proof -
  have d: "json_Unmarshal sample_runtime ''{answer}'' = Some answer" by (simp add: sample_eval)
  have s: "SenderID answer \<noteq> ID user10" by (simp add: sample_eval)
  from foreign_sender_is_skipped[OF d s, of empty_store "[ReadError]"] d s
  show ?thesis by (simp add: user10_def)
qed

text \<open>The only payload the loop body hands to the hub is the frame it read.\<close>

lemma readPump_body_Broadcast:
  "ToHub (Broadcast p) \<in> set (snd (readPump_body rt c db message)) \<Longrightarrow> p = message"
  by (auto simp: readPump_body_def Let_def split: option.splits if_splits sum.splits prod.splits)

text \<open>
  C6. Whenever the pump sends a payload on the hub's broadcast channel, the payload is
  the byte string that \<open>ReadMessage\<close> returned for that frame: the decoded envelope, on
  which the thread id is overwritten before \<open>AddMessage\<close>, is never encoded again.
\<close>

theorem broadcast_payload_is_raw_frame:
  "(ToHub (Broadcast p) \<in> set (snd (readPump_body rt c db message)) \<longrightarrow> p = message) \<and>
   (ToHub (Broadcast p) \<in> set (snd (readPump rt c db reads)) \<longrightarrow> Frame p \<in> set reads)"
proof
  show "ToHub (Broadcast p) \<in> set (snd (readPump_body rt c db message)) \<longrightarrow> p = message"
    using readPump_body_Broadcast by blast
next
  show "ToHub (Broadcast p) \<in> set (snd (readPump rt c db reads)) \<longrightarrow> Frame p \<in> set reads"
  proof (induction rt c db reads rule: readPump.induct)
    case (1 rt c db)
    then show ?case by simp
  next
    case (2 rt c db rest)
    then show ?case by simp
  next
    case (3 rt c db message rest)
    show ?case
    proof
      assume a: "ToHub (Broadcast p) \<in> set (snd (readPump rt c db (Frame message # rest)))"
      obtain db1 out where b: "readPump_body rt c db message = (db1, out)" by (cases "readPump_body rt c db message")
      obtain db2 out' where r: "readPump rt c db1 rest = (db2, out')" by (cases "readPump rt c db1 rest")
      from a b r have "ToHub (Broadcast p) \<in> set out \<or> ToHub (Broadcast p) \<in> set out'" by simp
      then show "Frame p \<in> set (Frame message # rest)"
      proof
        assume "ToHub (Broadcast p) \<in> set out"
        then have "p = message" using b readPump_body_Broadcast[of p rt c db message] by simp
        then show ?thesis by simp
      next
        assume "ToHub (Broadcast p) \<in> set out'"
        then have "Frame p \<in> set rest" using "3.IH"[OF b[symmetric]] r by simp
        then show ?thesis by simp
      qed
    qed
  qed
qed


text \<open>
  C6 on the sample frame: the envelope carries \<open>chat_id\<close> 0, the row is stored under
  thread 1, and the payload broadcast is the frame as read.
\<close>

theorem broadcast_payload_is_raw_frame_witness:
  "ChatID hello = 0 \<and>
   ToHub (Broadcast ''{hello}'') \<in> set (snd (readPump_body sample_runtime user10 empty_store ''{hello}'')) \<and>
   map m_chat_id (messages (fst (readPump_body sample_runtime user10 empty_store ''{hello}''))) = [1] \<and>
   ToHub (Broadcast ''{hello}'') \<in> set (snd (readPump sample_runtime user10 empty_store [Frame ''junk'', Frame ''{hello}''])) \<and>
   Frame ''{hello}'' \<in> set [Frame ''junk'', Frame ''{hello}'']"
proof -
  have b: "readPump_body sample_runtime user10 empty_store ''{hello}'' =
      (\<lparr>chats = [\<lparr>c_id = 1, c_sender_id = 10, c_receiver_id = 20\<rparr>],
        messages = [\<lparr>m_id = 1, m_chat_id = 1, m_sender_id = 10, m_receiver_id = 20,
           m_text = ''hi'', m_time = ''14:00'', m_replied_message = None,
           m_replied_message_id = None, m_date = ''2024-07-22'',
           m_attached_file_path = None, m_is_read = False\<rparr>],
        chats_auto_increment = 2, messages_auto_increment = 2,
        session_chat_id = Some 1, up = True\<rparr>, [ToHub (Broadcast ''{hello}'')])"
    by (simp add: readPump_body_def sample_eval store_eval)
  have j: "readPump_body sample_runtime user10 empty_store ''junk'' = (empty_store, [])"
    by (simp add: readPump_body_def sample_eval)
  have m: "ToHub (Broadcast ''{hello}'') \<in> set (snd (readPump_body sample_runtime user10 empty_store ''{hello}''))"
    by (simp add: b)
  have r: "ToHub (Broadcast ''{hello}'') \<in> set (snd (readPump sample_runtime user10 empty_store [Frame ''junk'', Frame ''{hello}'']))"
    by (simp add: b j)
  from broadcast_payload_is_raw_frame[of "''{hello}''" sample_runtime user10 empty_store "''{hello}''"
      "[Frame ''junk'', Frame ''{hello}'']"] m r
  have "Frame ''{hello}'' \<in> set [Frame ''junk'', Frame ''{hello}'']" by blast
  with m r show ?thesis by (simp add: b hello_def)
qed












section \<open>Threads: proofs\<close>

text \<open>The \<open>WHERE\<close> clause selects the rows of one unordered pair.\<close>

lemma between_participants: "between a b row = (participants row = {a, b})"
  by (auto simp: between_def participants_def doubleton_eq_iff)

lemma between_commute: "between a b = between b a"
  by (rule ext) (auto simp: between_def)

lemma distinct_map_filter_le1:
  "distinct (map f xs) \<Longrightarrow> filter (\<lambda>x. f x = v) xs = y # ys \<Longrightarrow> ys = []"
proof (induction xs arbitrary: y ys)
  case Nil
  then show ?case by simp
next
  case (Cons x xs)
  show ?case
  proof (cases "f x = v")
    case True
    have "f x \<notin> f ` set xs" using Cons.prems(1) by simp
    then have "\<forall>z\<in>set xs. f z \<noteq> v" using True by blast
    then have "filter (\<lambda>x. f x = v) xs = []"
      by (simp add: filter_empty_conv)
    then show ?thesis using Cons.prems(2) True by simp
  next
    case False
    then show ?thesis using Cons by simp
  qed
qed

lemma one_thread_filter:
  assumes "one_thread_per_pair db" "filter (between a b) (chats db) = row # others"
  shows "others = []"
proof -
  have "between a b = (\<lambda>row. participants row = {a, b})"
    by (rule ext) (rule between_participants)
  then show ?thesis
    using assms distinct_map_filter_le1[of participants "chats db" "{a, b}" row others]
    by (simp add: one_thread_per_pair_def)
qed

lemma CreateChat_existing:
  "up db \<Longrightarrow> filter (between a b) (chats db) = row # others \<Longrightarrow>
   CreateChat db a b = (Inr (c_id row), db\<lparr>session_chat_id := Some (c_id row)\<rparr>)"
  by (simp add: CreateChat_def CreateChat_procedure_def Let_def)

lemma CreateChat_new:
  "up db \<Longrightarrow> filter (between a b) (chats db) = [] \<Longrightarrow>
   CreateChat db a b =
     (Inr (chats_auto_increment db),
      db\<lparr>chats := chats db @ [\<lparr>c_id = chats_auto_increment db, c_sender_id = a, c_receiver_id = b\<rparr>],
         chats_auto_increment := chats_auto_increment db + 1,
         session_chat_id := Some (chats_auto_increment db)\<rparr>)"
  by (simp add: CreateChat_def CreateChat_procedure_def Let_def)

lemma one_thread_append:
  assumes "one_thread_per_pair db" "filter (between a b) (chats db) = []"
  shows "distinct (map participants (chats db @ [\<lparr>c_id = i, c_sender_id = a, c_receiver_id = b\<rparr>]))"
proof -
  have "\<forall>row\<in>set (chats db). participants row \<noteq> {a, b}"
    using assms(2) by (simp add: filter_empty_conv between_participants)
  then have "{a, b} \<notin> set (map participants (chats db))" by auto
  then show ?thesis using assms(1) by (simp add: one_thread_per_pair_def participants_def)
qed

lemma AddMessage_result:
  "chats (snd (AddMessage rt db chatID s r messageText timeStr repliedMessage repliedMessageID hijriDate
       attachedFile isRead)) = chats db \<and>
   up (snd (AddMessage rt db chatID s r messageText timeStr repliedMessage repliedMessageID hijriDate
       attachedFile isRead)) = up db \<and>
   (messages (snd (AddMessage rt db chatID s r messageText timeStr repliedMessage repliedMessageID hijriDate
       attachedFile isRead)) = messages db \<or>
    (\<exists>m first others.
       messages (snd (AddMessage rt db chatID s r messageText timeStr repliedMessage repliedMessageID hijriDate
         attachedFile isRead)) = messages db @ [m] \<and>
       filter (between s r) (chats db) = first # others \<and> m_chat_id m = c_id first))"
  by (auto simp: AddMessage_def AddMessage_procedure_def ChatExists_def Let_def
      split: sum.splits if_splits option.splits list.splits)


lemma readPump_body_accepted:
  assumes "json_Unmarshal rt message = Some msg" and "SenderID msg = ID c"
    and "ChatExists db (SenderID msg) (ReceiverID msg) = Inr found"
    and "(if found = 0 then CreateChat db (SenderID msg) (ReceiverID msg) else (Inr found, db))
           = (Inr existingChatID, db1)"
  shows "fst (readPump_body rt c db message) =
         snd (AddMessage rt db1 existingChatID (SenderID msg) (ReceiverID msg) (Message msg) (Time msg)
           (case RepliedMessage msg of None \<Rightarrow> [] | Some s \<Rightarrow> s) (RepliedMessageID msg) (Date msg)
           (AttachedFile msg) (IsRead msg))"
  using assms by (simp add: readPump_body_def Let_def split: prod.splits option.splits)

lemma readPump_body_thread:
  assumes u: "up db" and o: "one_thread_per_pair db"
    and d: "json_Unmarshal rt message = Some msg" and s: "SenderID msg = ID c"
  shows "\<exists>t. up (fst (readPump_body rt c db message)) \<and>
     one_thread_per_pair (fst (readPump_body rt c db message)) \<and>
     filter (between (SenderID msg) (ReceiverID msg)) (chats (fst (readPump_body rt c db message))) = [t] \<and>
     (filter (between (SenderID msg) (ReceiverID msg)) (chats db) \<noteq> [] \<longrightarrow>
        chats (fst (readPump_body rt c db message)) = chats db) \<and>
     (messages (fst (readPump_body rt c db message)) = messages db \<or>
      (\<exists>m. messages (fst (readPump_body rt c db message)) = messages db @ [m] \<and>
           m_chat_id m = c_id t))"
proof -
  let ?a = "SenderID msg" and ?b = "ReceiverID msg"
  let ?add = "\<lambda>db1 i. snd (AddMessage rt db1 i ?a ?b (Message msg) (Time msg)
           (case RepliedMessage msg of None \<Rightarrow> [] | Some s \<Rightarrow> s) (RepliedMessageID msg) (Date msg)
           (AttachedFile msg) (IsRead msg))"
  have "\<exists>db1 i t. fst (readPump_body rt c db message) = ?add db1 i \<and> up db1 \<and>
      one_thread_per_pair db1 \<and> filter (between ?a ?b) (chats db1) = [t] \<and>
      messages db1 = messages db \<and>
      (filter (between ?a ?b) (chats db) \<noteq> [] \<longrightarrow> chats db1 = chats db)"
  proof (cases "filter (between ?a ?b) (chats db)")
    case Nil
    let ?new = "\<lparr>c_id = chats_auto_increment db, c_sender_id = ?a, c_receiver_id = ?b\<rparr>"
    let ?db1 = "db\<lparr>chats := chats db @ [?new],
         chats_auto_increment := chats_auto_increment db + 1,
         session_chat_id := Some (chats_auto_increment db)\<rparr>"
    have e: "ChatExists db ?a ?b = Inr 0" using u Nil by (simp add: ChatExists_def)
    have k: "(if (0::int) = 0 then CreateChat db ?a ?b else (Inr 0, db))
        = (Inr (chats_auto_increment db), ?db1)"
      using CreateChat_new[OF u Nil] by simp
    have 1: "fst (readPump_body rt c db message) = ?add ?db1 (chats_auto_increment db)"
      using readPump_body_accepted[OF d s e k] .
    have 2: "one_thread_per_pair ?db1"
      using one_thread_append[OF o Nil] by (simp add: one_thread_per_pair_def)
    have 3: "filter (between ?a ?b) (chats ?db1) = [?new]"
      using Nil by (simp add: between_def)
    from 1 2 3 u Nil show ?thesis by (intro exI[of _ ?db1] exI[of _ "chats_auto_increment db"] exI[of _ ?new]) simp
  next
    case (Cons row others)
    have oe: "others = []" using one_thread_filter[OF o Cons] .
    have e: "ChatExists db ?a ?b = Inr (c_id row)" using u Cons by (simp add: ChatExists_def)
    show ?thesis
    proof (cases "c_id row = 0")
      case True
      let ?db1 = "db\<lparr>session_chat_id := Some (c_id row)\<rparr>"
      have k: "(if c_id row = 0 then CreateChat db ?a ?b else (Inr (c_id row), db))
          = (Inr (c_id row), ?db1)"
        using CreateChat_existing[OF u Cons] True by simp
      have 1: "fst (readPump_body rt c db message) = ?add ?db1 (c_id row)"
        using readPump_body_accepted[OF d s e k] .
      have 2: "one_thread_per_pair ?db1" using o by (simp add: one_thread_per_pair_def)
      have 3: "filter (between ?a ?b) (chats ?db1) = [row]" using Cons oe by simp
      from 1 2 3 u show ?thesis by (intro exI[of _ ?db1] exI[of _ "c_id row"] exI[of _ row]) simp
    next
      case False
      have k: "(if c_id row = 0 then CreateChat db ?a ?b else (Inr (c_id row), db))
          = (Inr (c_id row), db)"
        using False by simp
      have 1: "fst (readPump_body rt c db message) = ?add db (c_id row)"
        using readPump_body_accepted[OF d s e k] .
      have 3: "filter (between ?a ?b) (chats db) = [row]" using Cons oe by simp
      from 1 o 3 u show ?thesis by (intro exI[of _ db] exI[of _ "c_id row"] exI[of _ row]) simp
    qed
  qed
  then obtain db1 i t where r: "fst (readPump_body rt c db message) = ?add db1 i" "up db1"
      "one_thread_per_pair db1" "filter (between ?a ?b) (chats db1) = [t]"
      "messages db1 = messages db"
      "filter (between ?a ?b) (chats db) \<noteq> [] \<longrightarrow> chats db1 = chats db" by blast
  note am = AddMessage_result[of rt db1 i ?a ?b "Message msg" "Time msg"
      "case RepliedMessage msg of None \<Rightarrow> [] | Some s \<Rightarrow> s" "RepliedMessageID msg" "Date msg"
      "AttachedFile msg" "IsRead msg"]
  have c: "chats (?add db1 i) = chats db1" and u': "up (?add db1 i) = up db1" using am by blast+
  have m: "messages (?add db1 i) = messages db \<or>
      (\<exists>m. messages (?add db1 i) = messages db @ [m] \<and> m_chat_id m = c_id t)"
    using am r(4,5) by auto
  have "one_thread_per_pair (?add db1 i)" using r(3) c by (simp add: one_thread_per_pair_def)
  with r(1,2,4,6) c u' m show ?thesis by (intro exI[of _ t]) simp
qed

lemma readPump_body_keeps:
  "one_thread_per_pair db \<Longrightarrow> one_thread_per_pair (fst (readPump_body rt c db message))"
proof -
  assume o: "one_thread_per_pair db"
  show ?thesis
  proof (cases "\<not> up db \<or> json_Unmarshal rt message = None \<or>
      (\<exists>msg. json_Unmarshal rt message = Some msg \<and> SenderID msg \<noteq> ID c)")
    case True
    then have "fst (readPump_body rt c db message) = db"
      by (auto simp: readPump_body_def ChatExists_def split: option.splits)
    then show ?thesis using o by simp
  next
    case False
    then obtain msg where "up db" "json_Unmarshal rt message = Some msg" "SenderID msg = ID c"
      by auto
    from readPump_body_thread[OF this(1) o this(2,3)] show ?thesis by blast
  qed
qed

lemma readPump_keeps:
  "one_thread_per_pair db \<Longrightarrow> one_thread_per_pair (fst (readPump rt c db reads))"
proof (induction rt c db reads rule: readPump.induct)
  case (1 rt c db)
  then show ?case by simp
next
  case (2 rt c db rest)
  then show ?case by simp
next
  case (3 rt c db message rest)
  obtain db1 out where b: "readPump_body rt c db message = (db1, out)"
    by (cases "readPump_body rt c db message")
  have "one_thread_per_pair db1"
    using readPump_body_keeps[OF "3.prems", of rt c message] b by simp
  then have "one_thread_per_pair (fst (readPump rt c db1 rest))"
    using "3.IH"[OF b[symmetric]] by simp
  then show ?case using b by (auto split: prod.splits)
qed


lemma CreateChat_keeps:
  assumes "one_thread_per_pair db"
  shows "one_thread_per_pair (snd (CreateChat db a b))"
proof (cases "up db")
  case False
  then show ?thesis using assms by (simp add: CreateChat_def)
next
  case True
  show ?thesis
  proof (cases "filter (between a b) (chats db)")
    case Nil
    show ?thesis
      using one_thread_append[OF assms Nil] CreateChat_new[OF True Nil]
      by (simp add: one_thread_per_pair_def)
  next
    case (Cons row others)
    show ?thesis
      using assms CreateChat_existing[OF True Cons] by (simp add: one_thread_per_pair_def)
  qed
qed

text \<open>
  Serial executions: every store call runs to its end before the next begins. In a
  store that is up and holds at most one thread per unordered pair:
  \<open>ChatExists\<close> gives the same answer for both orders of the pair, namely the id of the
  pair's thread or 0; \<open>CreateChat\<close> returns the id of the pair's thread when there is
  one, and inserts no row; \<open>CreateChat\<close> and any run of a read pump keep the invariant;
  and after a first message from \<open>a\<close> to \<open>b\<close> and then one from \<open>b\<close> to \<open>a\<close>, each
  handled by the pump of its sender, the pair has exactly one thread and every message
  row written by the two carries its id.
\<close>

lemma serial_one_thread_per_pair:
  assumes u: "up db" and o: "one_thread_per_pair db"
  shows "ChatExists db a b = ChatExists db b a \<and>
    ChatExists db a b =
      Inr (case filter (\<lambda>row. participants row = {a, b}) (chats db) of
             [] \<Rightarrow> 0 | row # others \<Rightarrow> c_id row) \<and>
    (filter (\<lambda>row. participants row = {a, b}) (chats db) = existing # rest \<longrightarrow>
       CreateChat db a b = (Inr (c_id existing), db\<lparr>session_chat_id := Some (c_id existing)\<rparr>)) \<and>
    one_thread_per_pair (snd (CreateChat db a b)) \<and>
    one_thread_per_pair (fst (readPump rt c db reads)) \<and>
    (json_Unmarshal rt m1 = Some w1 \<and> SenderID w1 = a \<and> ReceiverID w1 = b \<and> ID c1 = a \<and>
     json_Unmarshal rt m2 = Some w2 \<and> SenderID w2 = b \<and> ReceiverID w2 = a \<and> ID c2 = b \<longrightarrow>
       (\<exists>t. filter (\<lambda>row. participants row = {a, b})
               (chats (fst (readPump_body rt c2 (fst (readPump_body rt c1 db m1)) m2))) = [t] \<and>
            (\<forall>m\<in>set (drop (length (messages db))
                        (messages (fst (readPump_body rt c2 (fst (readPump_body rt c1 db m1)) m2)))).
               m_chat_id m = c_id t)))"
proof -
  have p: "between a b = (\<lambda>row. participants row = {a, b})"
    by (rule ext) (rule between_participants)
  have 1: "ChatExists db a b = ChatExists db b a"
    by (simp add: ChatExists_def between_commute[of a b])
  have 2: "ChatExists db a b =
      Inr (case filter (\<lambda>row. participants row = {a, b}) (chats db) of
             [] \<Rightarrow> 0 | row # others \<Rightarrow> c_id row)"
    using u unfolding p[symmetric] by (simp add: ChatExists_def split: list.splits)
  have 3: "filter (\<lambda>row. participants row = {a, b}) (chats db) = existing # rest \<longrightarrow>
       CreateChat db a b = (Inr (c_id existing), db\<lparr>session_chat_id := Some (c_id existing)\<rparr>)"
    unfolding p[symmetric] using CreateChat_existing[OF u, of a b existing rest] by blast
  have 4: "one_thread_per_pair (snd (CreateChat db a b))" using o by (rule CreateChat_keeps)
  have 5: "one_thread_per_pair (fst (readPump rt c db reads))" using o by (rule readPump_keeps)
  have 6: "\<exists>t. filter (\<lambda>row. participants row = {a, b})
               (chats (fst (readPump_body rt c2 (fst (readPump_body rt c1 db m1)) m2))) = [t] \<and>
            (\<forall>m\<in>set (drop (length (messages db))
                        (messages (fst (readPump_body rt c2 (fst (readPump_body rt c1 db m1)) m2)))).
               m_chat_id m = c_id t)"
    if h: "json_Unmarshal rt m1 = Some w1 \<and> SenderID w1 = a \<and> ReceiverID w1 = b \<and> ID c1 = a \<and>
     json_Unmarshal rt m2 = Some w2 \<and> SenderID w2 = b \<and> ReceiverID w2 = a \<and> ID c2 = b"
  proof -
    let ?db1 = "fst (readPump_body rt c1 db m1)"
    let ?db2 = "fst (readPump_body rt c2 ?db1 m2)"
    have d1: "json_Unmarshal rt m1 = Some w1" and s1: "SenderID w1 = ID c1" using h by auto
    have d2: "json_Unmarshal rt m2 = Some w2" and s2: "SenderID w2 = ID c2" using h by auto
    from readPump_body_thread[OF u o d1 s1] h obtain t where
      t: "up ?db1" "one_thread_per_pair ?db1" "filter (between a b) (chats ?db1) = [t]"
         "messages ?db1 = messages db \<or> (\<exists>m. messages ?db1 = messages db @ [m] \<and> m_chat_id m = c_id t)"
      by auto
    from readPump_body_thread[OF t(1,2) d2 s2] h obtain t' where
      t': "filter (between b a) (chats ?db2) = [t']"
         "filter (between b a) (chats ?db1) \<noteq> [] \<longrightarrow> chats ?db2 = chats ?db1"
         "messages ?db2 = messages ?db1 \<or> (\<exists>m. messages ?db2 = messages ?db1 @ [m] \<and> m_chat_id m = c_id t')"
      by auto
    have same: "chats ?db2 = chats ?db1" using t'(2) t(3) by (simp add: between_commute[of b a])
    then have tt: "t' = t" using t'(1) t(3) by (simp add: between_commute[of b a])
    have f: "filter (\<lambda>row. participants row = {a, b}) (chats ?db2) = [t]"
      unfolding p[symmetric] same using t(3) .
    have "\<exists>n1. messages ?db1 = messages db @ n1 \<and> (\<forall>m\<in>set n1. m_chat_id m = c_id t)"
    proof (rule disjE[OF t(4)])
      assume "messages ?db1 = messages db"
      then show ?thesis by (intro exI[of _ "[]"]) simp
    next
      assume "\<exists>m. messages ?db1 = messages db @ [m] \<and> m_chat_id m = c_id t"
      then obtain m where "messages ?db1 = messages db @ [m]" "m_chat_id m = c_id t" by blast
      then show ?thesis by (intro exI[of _ "[m]"]) simp
    qed
    then obtain n1 where n1: "messages ?db1 = messages db @ n1" "\<forall>m\<in>set n1. m_chat_id m = c_id t"
      by blast
    have "\<exists>n2. messages ?db2 = messages ?db1 @ n2 \<and> (\<forall>m\<in>set n2. m_chat_id m = c_id t)"
    proof (rule disjE[OF t'(3)])
      assume "messages ?db2 = messages ?db1"
      then show ?thesis by (intro exI[of _ "[]"]) simp
    next
      assume "\<exists>m. messages ?db2 = messages ?db1 @ [m] \<and> m_chat_id m = c_id t'"
      then obtain m where "messages ?db2 = messages ?db1 @ [m]" "m_chat_id m = c_id t"
        unfolding tt by blast
      then show ?thesis by (intro exI[of _ "[m]"]) simp
    qed
    then obtain n2 where n2: "messages ?db2 = messages ?db1 @ n2" "\<forall>m\<in>set n2. m_chat_id m = c_id t"
      by blast
    have "messages ?db2 = messages db @ (n1 @ n2)" "\<forall>m\<in>set (n1 @ n2). m_chat_id m = c_id t"
      using n1 n2 by auto
    then have "\<forall>m\<in>set (drop (length (messages db)) (messages ?db2)). m_chat_id m = c_id t" by simp
    with f show ?thesis by blast
  qed
  from 1 2 3 4 5 6 show ?thesis by blast
qed

text \<open>The two sample messages, one after the other, on the empty store.\<close>

lemma hello_then_answer:
  "fst (readPump_body sample_runtime user20
         (fst (readPump_body sample_runtime user10 empty_store ''{hello}'')) ''{answer}'') =
     \<lparr>chats = [\<lparr>c_id = 1, c_sender_id = 10, c_receiver_id = 20\<rparr>],
      messages =
        [\<lparr>m_id = 1, m_chat_id = 1, m_sender_id = 10, m_receiver_id = 20,
           m_text = ''hi'', m_time = ''14:00'', m_replied_message = None,
           m_replied_message_id = None, m_date = ''2024-07-22'',
           m_attached_file_path = None, m_is_read = False\<rparr>,
         \<lparr>m_id = 2, m_chat_id = 1, m_sender_id = 20, m_receiver_id = 10,
           m_text = ''hello'', m_time = ''14:01'', m_replied_message = Some ''hi'',
           m_replied_message_id = Some 1, m_date = ''2024-07-22'',
           m_attached_file_path = None, m_is_read = False\<rparr>],
      chats_auto_increment = 2, messages_auto_increment = 3,
      session_chat_id = Some 1, up = True\<rparr>"
  by (simp add: readPump_body_def sample_eval store_eval)

text \<open>
  The serial case on the samples: the second lookup, with the participants swapped,
  finds the thread made for the first message.
\<close>

lemma serial_one_thread_per_pair_samples:
  "up empty_store \<and> one_thread_per_pair empty_store \<and>
   up one_chat \<and> one_thread_per_pair one_chat \<and>
   json_Unmarshal sample_runtime ''{hello}'' = Some hello \<and>
   SenderID hello = 10 \<and> ReceiverID hello = 20 \<and> ID user10 = 10 \<and>
   json_Unmarshal sample_runtime ''{answer}'' = Some answer \<and>
   SenderID answer = 20 \<and> ReceiverID answer = 10 \<and> ID user20 = 20 \<and>
   filter (\<lambda>row. participants row = {20, 10}) (chats one_chat) =
     [\<lparr>c_id = 1, c_sender_id = 10, c_receiver_id = 20\<rparr>] \<and>
   CreateChat one_chat 20 10 = (Inr 1, one_chat) \<and>
   chats (fst (readPump_body sample_runtime user20
            (fst (readPump_body sample_runtime user10 empty_store ''{hello}'')) ''{answer}'')) =
     [\<lparr>c_id = 1, c_sender_id = 10, c_receiver_id = 20\<rparr>] \<and>
   map m_chat_id (messages (fst (readPump_body sample_runtime user20
            (fst (readPump_body sample_runtime user10 empty_store ''{hello}'')) ''{answer}''))) = [1, 1]"
proof -
  have u: "up empty_store" and o: "one_thread_per_pair empty_store"
    by (simp_all add: empty_store_def one_thread_per_pair_def)
  have u1: "up one_chat" and o1: "one_thread_per_pair one_chat"
    by (simp_all add: one_chat_def one_thread_per_pair_def)
  have d: "json_Unmarshal sample_runtime ''{hello}'' = Some hello \<and>
     SenderID hello = 10 \<and> ReceiverID hello = 20 \<and> ID user10 = 10 \<and>
     json_Unmarshal sample_runtime ''{answer}'' = Some answer \<and>
     SenderID answer = 20 \<and> ReceiverID answer = 10 \<and> ID user20 = 20"
    by (simp add: sample_eval)
  have f: "filter (\<lambda>row. participants row = {20, 10}) (chats one_chat) =
     [\<lparr>c_id = 1, c_sender_id = 10, c_receiver_id = 20\<rparr>]"
    by (simp add: one_chat_def participants_def doubleton_eq_iff)
  have "CreateChat one_chat 20 10 =
      (Inr (c_id \<lparr>c_id = 1, c_sender_id = 10, c_receiver_id = 20\<rparr>),
       one_chat\<lparr>session_chat_id := Some (c_id \<lparr>c_id = 1, c_sender_id = 10, c_receiver_id = 20\<rparr>)\<rparr>)"
    using serial_one_thread_per_pair[OF u1 o1, of 20 10 "\<lparr>c_id = 1, c_sender_id = 10, c_receiver_id = 20\<rparr>" "[]"] f
    by blast
  then have k: "CreateChat one_chat 20 10 = (Inr 1, one_chat)" by (simp add: one_chat_def)
  from serial_one_thread_per_pair[OF u o, of 10 20 _ _ _ _ _ "''{hello}''" hello user10
      "''{answer}''" answer user20] d
  obtain t where "filter (\<lambda>row. participants row = {10, 20})
      (chats (fst (readPump_body sample_runtime user20
            (fst (readPump_body sample_runtime user10 empty_store ''{hello}'')) ''{answer}''))) = [t]"
    by blast
  with u o u1 o1 d f k show ?thesis by (simp add: hello_then_answer)
qed

text \<open>The procedure, run without interruption, is its two statements in a row.\<close>

lemma CreateChat_procedure_statements:
  "CreateChat_procedure db a b = CreateChat_IF db a b (CreateChat_SELECT db a b)"
  by (simp add: CreateChat_procedure_def CreateChat_IF_def CreateChat_SELECT_def
      split: list.splits)

text \<open>
  C5. Two connections, of users 10 and 20, each receive the first message of the pair
  while the store holds no thread. Both pumps look the thread up and find none, so both
  call \<open>CreateChat\<close>; the two procedure calls run in two sessions, and both \<open>SELECT\<close>s
  run before either \<open>INSERT\<close>. Each call then inserts a row: the table ends with two
  threads for the one pair, against the invariant that the lookup, the procedure and
  \<open>AddMessage\<close> rely on and that holds in every serial execution.
\<close>

theorem interleaved_first_messages_make_two_threads:
  "one_thread_per_pair empty_store \<and>
   ChatExists empty_store 10 20 = Inr 0 \<and> ChatExists empty_store 20 10 = Inr 0 \<and>
   CreateChat_SELECT empty_store 10 20 = None \<and> CreateChat_SELECT empty_store 20 10 = None \<and>
   chats (CreateChat_IF (CreateChat_IF empty_store 10 20 None) 20 10 None) =
     [\<lparr>c_id = 1, c_sender_id = 10, c_receiver_id = 20\<rparr>,
      \<lparr>c_id = 2, c_sender_id = 20, c_receiver_id = 10\<rparr>] \<and>
   map participants (chats (CreateChat_IF (CreateChat_IF empty_store 10 20 None) 20 10 None)) =
     [{10, 20}, {10, 20}] \<and>
   \<not> one_thread_per_pair (CreateChat_IF (CreateChat_IF empty_store 10 20 None) 20 10 None)"
proof -
  have c: "chats (CreateChat_IF (CreateChat_IF empty_store 10 20 None) 20 10 None) =
     [\<lparr>c_id = 1, c_sender_id = 10, c_receiver_id = 20\<rparr>,
      \<lparr>c_id = 2, c_sender_id = 20, c_receiver_id = 10\<rparr>]"
    by (simp add: CreateChat_IF_def empty_store_def)
  have p: "map participants (chats (CreateChat_IF (CreateChat_IF empty_store 10 20 None) 20 10 None)) =
     [{10, 20}, {10, 20}]"
    unfolding c by (simp add: participants_def insert_commute)
  have n: "\<not> one_thread_per_pair (CreateChat_IF (CreateChat_IF empty_store 10 20 None) 20 10 None)"
    unfolding one_thread_per_pair_def p by simp
  have o: "one_thread_per_pair empty_store"
    by (simp add: one_thread_per_pair_def empty_store_def)
  have e: "ChatExists empty_store 10 20 = Inr 0 \<and> ChatExists empty_store 20 10 = Inr 0"
    by (simp add: ChatExists_def empty_store_def)
  have s: "CreateChat_SELECT empty_store 10 20 = None \<and> CreateChat_SELECT empty_store 20 10 = None"
    by (simp add: CreateChat_SELECT_def empty_store_def)
  from o e s c p n show ?thesis by blast
qed

end
